theory Spec2Isabelle
  imports Complex_Main "HOL-Library.Multiset" "HOL-Library.Product_Lexorder"
begin

section \<open>Data model of the key-triples walkthrough\<close>

text \<open>
  The notebook \<^verbatim>\<open>doc/notebooks/key_triples_walkthrough.ipynb\<close> works on integer-encoded
  RDF triples. A row of the triple array is unpacked as \<^verbatim>\<open>head, tail, _ = trip\<close> and as
  \<^verbatim>\<open>h, t, r = t\<close>, so a triple is (head, tail, relation). Node scores are Python floats;
  they are modelled as reals (no rounding, no NaN).
\<close>

type_synonym triple = "int \<times> int \<times> int"

text \<open>\<^verbatim>\<open>d.get(k, default)\<close> on a Python dict, the dict read as a partial map.\<close>

definition dict_get :: "('k \<rightharpoonup> 'v) \<Rightarrow> 'k \<Rightarrow> 'v \<Rightarrow> 'v" where
  "dict_get d k dflt = (case d k of None \<Rightarrow> dflt | Some v \<Rightarrow> v)"

section \<open>Loading the observed triples (notebook cell 3)\<close>

text \<open>
  \<^verbatim>\<open>
  triples = read_txt(os.path.join(kg_dir, 'train2id.txt'))
  triples = np.array(triples).astype(int)
  triples = np.unique(triples, axis=0)
  \<close>
  The rows read from the file are the input. \<^verbatim>\<open>np.unique\<close> with \<^verbatim>\<open>axis=0\<close> sorts the
  rows (lexicographically, first column most significant) and then keeps one row of every
  run of equal neighbours. Products are ordered lexicographically here.
\<close>

definition np_unique :: "triple list \<Rightarrow> triple list" where
  "np_unique rows = remdups_adj (sort rows)"

text \<open>
  What the spec (section 6) says of the loaded sequence, for comparison: the first
  occurrence of every row, in the order of the file.
\<close>

definition file_order_dedup :: "triple list \<Rightarrow> triple list" where
  "file_order_dedup rows = rev (remdups (rev rows))"

section \<open>Python dicts with their insertion order\<close>

text \<open>
  A dict that is iterated (\<^verbatim>\<open>result.items()\<close>, \<^verbatim>\<open>results.values()\<close>) is an association
  list in insertion order. \<^verbatim>\<open>d[k] = v\<close> overwrites the value of a key that is present,
  in place, and appends a new key at the end.
\<close>

fun dict_set :: "('k \<times> 'v) list \<Rightarrow> 'k \<Rightarrow> 'v \<Rightarrow> ('k \<times> 'v) list" where
  "dict_set [] k v = [(k, v)]"
| "dict_set ((k', v') # d) k v =
     (if k' = k then (k', v) # d else (k', v') # dict_set d k v)"

text \<open>A dict comprehension \<^verbatim>\<open>{k: v for k, v in items}\<close>.\<close>

definition dict_of_items :: "('k \<times> 'v) list \<Rightarrow> ('k \<times> 'v) list" where
  "dict_of_items items = foldl (\<lambda>d (k, v). dict_set d k v) [] items"

section \<open>Node changes and their ranking (notebook cell 5)\<close>

text \<open>
  \<^verbatim>\<open>
  net = build_comparison_metrics(neto, netn, measure)
  result = generate_node_changes(net)
  result = {k: v for k, v in sorted(result.items(),
                                    key=lambda item: item[1])}
  gains = generate_result_lists(result, len(result), 'top')
  \<close>
\<close>

text \<open>
  Modelled from the spec: \<^verbatim>\<open>generate_node_changes\<close> of the module
  \<^verbatim>\<open>calculate_network_change\<close>, which the notebook imports and which is not among the
  sources. The spec (4.3): the domain of iteration is the observed scores' keys exactly,
  and \<^verbatim>\<open>delta = candidate_scores.get(node, 0) - observed_scores[node]\<close>. The two score
  mappings are what \<^verbatim>\<open>build_comparison_metrics\<close> (absent too) puts into \<^verbatim>\<open>net\<close>.
\<close>

definition generate_node_changes ::
  "(int \<times> real) list \<Rightarrow> (int \<rightharpoonup> real) \<Rightarrow> (int \<times> real) list" where
  "generate_node_changes observed_scores candidate_scores =
     map (\<lambda>(node, s). (node, dict_get candidate_scores node 0 - s)) observed_scores"

text \<open>
  The notebook's own re-sorting of \<^verbatim>\<open>result\<close>: Python's \<^verbatim>\<open>sorted\<close> is stable, as the
  insertion sort \<^const>\<open>sort_key\<close> is, and the comprehension rebuilds a dict.
\<close>

definition result_sorted :: "(int \<times> real) list \<Rightarrow> (int \<times> real) list" where
  "result_sorted result = dict_of_items (sort_key snd result)"

definition rank_changes ::
  "(int \<times> real) list \<Rightarrow> (int \<rightharpoonup> real) \<Rightarrow> (int \<times> real) list" where
  "rank_changes observed_scores candidate_scores =
     result_sorted (generate_node_changes observed_scores candidate_scores)"

datatype rank_mode = Top | Bottom

text \<open>
  Modelled from the spec: \<^verbatim>\<open>generate_result_lists\<close> of the module
  \<^verbatim>\<open>calculate_network_change\<close>, not among the sources; the spec calls it \<^verbatim>\<open>select\<close>
  (4.3): "top" returns the last n entries of the ascending sort, "bottom" returns the first
  n, and an n larger than the ranking length returns the whole ranking.
\<close>

fun generate_result_lists :: "(int \<times> real) list \<Rightarrow> nat \<Rightarrow> rank_mode \<Rightarrow> (int \<times> real) list" where
  "generate_result_lists ranking n Top = drop (length ranking - n) ranking"
| "generate_result_lists ranking n Bottom = take n ranking"

text \<open>The notebook's \<^verbatim>\<open>gains\<close>, read with \<^verbatim>\<open>gains.get\<close> in the scoring loop.\<close>

definition gains_of :: "(int \<times> real) list \<Rightarrow> (int \<rightharpoonup> real)" where
  "gains_of result = map_of (generate_result_lists result (length result) Top)"

section \<open>Triple scoring (notebook cell 6)\<close>

text \<open>
  \<^verbatim>\<open>
  trip_scores = np.zeros(triples.shape[0])
  for i, trip in enumerate(triples):
      head, tail, _ = trip
      trip_scores[i] = gains.get(head, 0) + gains.get(tail, 0)
  \<close>
  The array starts as zeros, one per row, and the loop overwrites entry \<open>i\<close>.
\<close>

definition score_step :: "(int \<rightharpoonup> real) \<Rightarrow> real list \<Rightarrow> nat \<times> triple \<Rightarrow> real list" where
  "score_step gains ts p =
     (case p of (i, (head, tail, _)) \<Rightarrow>
        ts[i := dict_get gains head 0 + dict_get gains tail 0])"

definition trip_scores :: "triple list \<Rightarrow> (int \<rightharpoonup> real) \<Rightarrow> real list" where
  "trip_scores triples gains =
     foldl (score_step gains) (replicate (length triples) 0) (enumerate 0 triples)"

text \<open>The score the loop body computes for one row.\<close>

definition endpoint_sum :: "(int \<rightharpoonup> real) \<Rightarrow> triple \<Rightarrow> real" where
  "endpoint_sum gains trip =
     (case trip of (head, tail, _) \<Rightarrow> dict_get gains head 0 + dict_get gains tail 0)"

section \<open>Top-K selection (notebook cell 6, last two lines)\<close>

text \<open>
  \<^verbatim>\<open>
  idxs = trip_scores.argsort()[::-1]
  top = triples[idxs,][:num_results,:]
  \<close>
  \<^verbatim>\<open>argsort\<close> belongs to numpy, not to the repository, and the pipeline takes it as a
  parameter. Its contract is \<open>is_argsort\<close>: the result is a permutation of the indices
  along which the scores ascend. The default kind is not stable: the contract says nothing
  about the order of indices with equal scores, and no theorem here relies on one.
\<close>

definition is_argsort :: "real list \<Rightarrow> nat list \<Rightarrow> bool" where
  "is_argsort a ids \<longleftrightarrow>
     mset ids = mset [0..<length a] \<and> sorted (map (\<lambda>i. a ! i) ids)"

text \<open>
  One function that meets the contract, an insertion sort of the indices, for running
  the pipeline on concrete inputs. It is not numpy's sort: the two are bound to agree
  only where the contract leaves no choice (all scores distinct, or a single row) and on
  a two-entry array, which numpy sorts by insertion as well.
\<close>

definition insertion_argsort :: "real list \<Rightarrow> nat list" where
  "insertion_argsort a = sort_key (\<lambda>i. a ! i) [0..<length a]"

definition idxs :: "(real list \<Rightarrow> nat list) \<Rightarrow> real list \<Rightarrow> nat list" where
  "idxs argsort scores = rev (argsort scores)"

text \<open>
  The slice \<^verbatim>\<open>xs[:k]\<close>: a negative bound counts from the end, and a bound beyond either
  end is clipped.
\<close>

definition py_slice_to :: "int \<Rightarrow> 'a list \<Rightarrow> 'a list" where
  "py_slice_to k xs =
     (if 0 \<le> k then take (nat k) xs else take (length xs - nat (- k)) xs)"

definition top_triples :: "triple list \<Rightarrow> nat list \<Rightarrow> int \<Rightarrow> triple list" where
  "top_triples triples ids num_results =
     py_slice_to num_results (map (\<lambda>i. triples ! i) ids)"

text \<open>
  The labelling loop reads \<^verbatim>\<open>triple_id = idxs[i]\<close> for every position \<open>i\<close> of \<^verbatim>\<open>top\<close>:
  these are the retained triple indices, in output order.
\<close>

definition triple_ids :: "nat list \<Rightarrow> triple list \<Rightarrow> nat list" where
  "triple_ids ids tp = map (\<lambda>(i, t). ids ! i) (enumerate 0 tp)"

section \<open>Labelling (notebook cell 7)\<close>

text \<open>
  \<^verbatim>\<open>
  results = {}
  for i, t in enumerate(top):
      triple_id = idxs[i]
      h, t, r = t
      score = trip_scores[triple_id]
      label = " ".join([ents[h], rels[r], ents[t]])
      results[triple_id] = {'idxs': t, 'label': label, 'score': score}
  \<close>
  The lookup tables \<^verbatim>\<open>ents\<close> and \<^verbatim>\<open>rels\<close> come from \<^verbatim>\<open>get_items\<close>, which is not among
  the sources; they are parameters, partial maps from id to text. An id that a table does
  not hold makes the subscript raise (\<^verbatim>\<open>KeyError\<close> or \<^verbatim>\<open>IndexError\<close>, both a
  \<^verbatim>\<open>LookupError\<close>); the loop stops there and \<^verbatim>\<open>results\<close> keeps what it held.

  The unpacking \<^verbatim>\<open>h, t, r = t\<close> rebinds \<^verbatim>\<open>t\<close>: when the record is built, \<^verbatim>\<open>t\<close> is
  the tail id, and that is what the key \<^verbatim>\<open>'idxs'\<close> stores.
\<close>

datatype error = LookupError

record result_record =
  r_idxs :: int
  r_label :: string
  r_score :: real

type_synonym results = "(nat \<times> result_record) list"

definition label :: "(int \<rightharpoonup> string) \<Rightarrow> (int \<rightharpoonup> string) \<Rightarrow> int \<Rightarrow> int \<Rightarrow> int \<Rightarrow> error + string" where
  "label ents rels h t r =
     (case ents h of
        None \<Rightarrow> Inl LookupError
      | Some eh \<Rightarrow>
          (case rels r of
             None \<Rightarrow> Inl LookupError
           | Some rr \<Rightarrow>
               (case ents t of
                  None \<Rightarrow> Inl LookupError
                | Some et \<Rightarrow> Inr (eh @ '' '' @ rr @ '' '' @ et))))"

fun results_loop ::
  "(int \<rightharpoonup> string) \<Rightarrow> (int \<rightharpoonup> string) \<Rightarrow> real list \<Rightarrow> nat list \<Rightarrow>
   (nat \<times> triple) list \<Rightarrow> results \<Rightarrow> (error \<times> results) + results" where
  "results_loop ents rels scores ids [] res = Inr res"
| "results_loop ents rels scores ids ((i, (h, t, r)) # rest) res =
     (let triple_id = ids ! i; score = scores ! triple_id in
      case label ents rels h t r of
        Inl e \<Rightarrow> Inl (e, res)
      | Inr l \<Rightarrow>
          results_loop ents rels scores ids rest
            (dict_set res triple_id \<lparr>r_idxs = t, r_label = l, r_score = score\<rparr>))"

definition results ::
  "(int \<rightharpoonup> string) \<Rightarrow> (int \<rightharpoonup> string) \<Rightarrow> real list \<Rightarrow> nat list \<Rightarrow> triple list \<Rightarrow>
   (error \<times> results) + results" where
  "results ents rels scores ids tp = results_loop ents rels scores ids (enumerate 0 tp) []"

text \<open>
  The selection and the labelling together, the spec's \<^verbatim>\<open>top_k(triples, scores, k, ents, rels)\<close>.
  A run that raises returns the error with the records made before it.
\<close>

definition top_k ::
  "(real list \<Rightarrow> nat list) \<Rightarrow> triple list \<Rightarrow> real list \<Rightarrow> int \<Rightarrow>
   (int \<rightharpoonup> string) \<Rightarrow> (int \<rightharpoonup> string) \<Rightarrow> (error \<times> results) + results" where
  "top_k argsort triples scores k ents rels =
     results ents rels scores (idxs argsort scores)
       (top_triples triples (idxs argsort scores) k)"

text \<open>Every id of a triple is in its table.\<close>

definition known :: "(int \<rightharpoonup> string) \<Rightarrow> (int \<rightharpoonup> string) \<Rightarrow> triple \<Rightarrow> bool" where
  "known ents rels trip =
     (case trip of (h, t, r) \<Rightarrow> ents h \<noteq> None \<and> rels r \<noteq> None \<and> ents t \<noteq> None)"

text \<open>
  The entry one pass of the loop body stores for position \<open>i\<close> of \<^verbatim>\<open>top\<close> when the three
  lookups succeed (used to state what the loop has built).
\<close>

definition record_for ::
  "(int \<rightharpoonup> string) \<Rightarrow> (int \<rightharpoonup> string) \<Rightarrow> real list \<Rightarrow> nat list \<Rightarrow> nat \<times> triple \<Rightarrow>
   nat \<times> result_record" where
  "record_for ents rels scores ids p =
     (case p of (i, (h, t, r)) \<Rightarrow>
        (ids ! i,
         \<lparr>r_idxs = t,
          r_label = the (ents h) @ '' '' @ the (rels r) @ '' '' @ the (ents t),
          r_score = scores ! (ids ! i)\<rparr>))"

section \<open>The scoring loop\<close>

lemma score_step_update:
  "score_step gains ts (i, trip) = ts[i := endpoint_sum gains trip]"
  by (cases trip) (simp add: score_step_def endpoint_sum_def)

lemma score_loop_from:
  "n + length xs \<le> length ts \<Longrightarrow>
   foldl (score_step gains) ts (enumerate n xs) =
     take n ts @ map (endpoint_sum gains) xs @ drop (n + length xs) ts"
proof (induction xs arbitrary: n ts)
  case Nil
  then show ?case by simp
next
  case (Cons x xs)
  let ?ts = "ts[n := endpoint_sum gains x]"
  from Cons.prems have n: "n < length ts" and len: "Suc n + length xs \<le> length ?ts"
    by simp_all
  have "foldl (score_step gains) ts (enumerate n (x # xs)) =
        foldl (score_step gains) ?ts (enumerate (Suc n) xs)"
    by (simp add: score_step_update)
  also have "\<dots> = take (Suc n) ?ts @ map (endpoint_sum gains) xs @ drop (Suc n + length xs) ?ts"
    using Cons.IH [OF len] .
  also have "take (Suc n) ?ts = take n ts @ [endpoint_sum gains x]"
    using n by (simp add: take_Suc_conv_app_nth)
  also have "drop (Suc n + length xs) ?ts = drop (n + length (x # xs)) ts"
    by simp
  finally show ?case by simp
qed

lemma trip_scores_map: "trip_scores triples gains = map (endpoint_sum gains) triples"
  using score_loop_from [of 0 triples "replicate (length triples) 0" gains]
  by (simp add: trip_scores_def)


text \<open>
  C1. For every triple sequence and every gains mapping, the score at each index is
  \<^verbatim>\<open>gains.get(h, 0) + gains.get(t, 0)\<close> of that row's own head and tail: the relation
  id is not read, an id that \<open>gains\<close> does not hold counts 0, the loop has no failing
  step, and there is one score per triple.
\<close>

theorem trip_scores_endpoints:
  "trip_scores triples gains =
     map (\<lambda>(h, t, r). dict_get gains h 0 + dict_get gains t 0) triples \<and>
   length (trip_scores triples gains) = length triples"
proof -
  have "endpoint_sum gains = (\<lambda>(h, t, r). dict_get gains h 0 + dict_get gains t 0)"
    by (rule ext) (simp add: endpoint_sum_def)
  thus ?thesis by (simp add: trip_scores_map)
qed

text \<open>
  C9. A self-loop triple (head and tail the same id) scores exactly twice
  \<^verbatim>\<open>gains.get(h, 0)\<close>: the shared endpoint is counted as head and as tail.
\<close>

theorem self_loop_scores_double:
  "i < length triples \<Longrightarrow> triples ! i = (h, h, r) \<Longrightarrow>
   trip_scores triples gains ! i = 2 * dict_get gains h 0"
  by (simp add: trip_scores_map endpoint_sum_def)

theorem self_loop_scores_double_witness:
  "(1::nat) < length [(1, 2, 0), (3, 3, 0 :: int)] \<and>
   [(1, 2, 0), (3, 3, 0 :: int)] ! 1 = (3 :: int, 3 :: int, 0) \<and>
   trip_scores [(1, 2, 0), (3, 3, 0)] (map_of [(3, 1 / 4)]) ! 1 = 1 / 2 \<and>
   2 * dict_get (map_of [(3 :: int, 1 / 4 :: real)]) 3 0 = 1 / 2"
  using self_loop_scores_double [of 1 "[(1, 2, 0), (3, 3, 0)]" 3 0 "map_of [(3, 1 / 4)]"]
  by (simp add: dict_get_def)

section \<open>De-duplication\<close>

lemma distinct_remdups_adj_sorted:
  fixes xs :: "'a::linorder list"
  shows "sorted xs \<Longrightarrow> distinct (remdups_adj xs)"
proof (induction xs rule: remdups_adj.induct)
  case (3 x y xs)
  show ?case
  proof (cases "x = y")
    case True
    with 3 show ?thesis by simp
  next
    case False
    with "3.prems" have "x \<notin> set (y # xs)" by auto
    with False 3 show ?thesis by simp
  qed
qed simp_all

lemma np_unique_sorted_distinct:
  "sorted (np_unique rows) \<and> distinct (np_unique rows) \<and> set (np_unique rows) = set rows"
  by (simp add: np_unique_def distinct_remdups_adj_sorted)

text \<open>
  C3, as the spec states it, "the observed triple sequence retains the original row order
  of the file (first occurrences in file order)", fails: a file whose two rows are
  (2, 1, 0) and then (1, 2, 0) is loaded as (1, 2, 0), (2, 1, 0).
\<close>

theorem np_unique_file_order_counterexample:
  "np_unique [(2, 1, 0), (1, 2, 0)] \<noteq> file_order_dedup [(2, 1, 0), (1, 2, 0)]"
  by (simp add: np_unique_def file_order_dedup_def)

text \<open>
  C3, amended. After loading and de-duplicating, the observed triple sequence holds every
  row of the file once, in ascending lexicographic order of (head, tail, relation); the
  order of the file is kept exactly when the file's first occurrences are ascending
  already.
\<close>

theorem np_unique_ascending:
  "sorted (np_unique rows) \<and> distinct (np_unique rows) \<and> set (np_unique rows) = set rows \<and>
   ((np_unique rows = file_order_dedup rows) = sorted (file_order_dedup rows))"
proof -
  note u = np_unique_sorted_distinct [of rows]
  have "(np_unique rows = file_order_dedup rows) = sorted (file_order_dedup rows)"
  proof
    assume "np_unique rows = file_order_dedup rows"
    with u show "sorted (file_order_dedup rows)" by simp
  next
    assume s: "sorted (file_order_dedup rows)"
    have "distinct (file_order_dedup rows)" "set (file_order_dedup rows) = set rows"
      by (simp_all add: file_order_dedup_def)
    with s u show "np_unique rows = file_order_dedup rows"
      by (intro sorted_distinct_set_unique) simp_all
  qed
  with u show ?thesis by simp
qed

section \<open>Dicts with distinct keys\<close>

lemma dict_set_fresh: "k \<notin> fst ` set d \<Longrightarrow> dict_set d k v = d @ [(k, v)]"
  by (induction d) auto

lemma dict_of_items_from:
  "distinct (map fst (d @ xs)) \<Longrightarrow> foldl (\<lambda>d (k, v). dict_set d k v) d xs = d @ xs"
proof (induction xs arbitrary: d)
  case Nil
  then show ?case by simp
next
  case (Cons x xs)
  obtain k v where x: "x = (k, v)" by (cases x)
  from Cons.prems x have fresh: "k \<notin> fst ` set d" by auto
  from Cons.prems x have "distinct (map fst ((d @ [(k, v)]) @ xs))" by simp
  from Cons.IH [OF this] fresh x show ?case by (simp add: dict_set_fresh)
qed

lemma dict_of_items_distinct: "distinct (map fst xs) \<Longrightarrow> dict_of_items xs = xs"
  using dict_of_items_from [of "[]" xs] by (simp add: dict_of_items_def)

section \<open>The ranking of node changes\<close>

lemma keys_generate_node_changes: "map fst (generate_node_changes A B) = map fst A"
  by (simp add: generate_node_changes_def case_prod_beta comp_def)

lemma rank_changes_sort:
  assumes "distinct (map fst A)"
  shows "rank_changes A B = sort_key snd (generate_node_changes A B)"
proof -
  have "mset (map fst (sort_key snd (generate_node_changes A B))) =
        mset (map fst (generate_node_changes A B))"
    by simp
  hence "mset (map fst (sort_key snd (generate_node_changes A B))) = mset (map fst A)"
    by (simp only: keys_generate_node_changes)
  hence "distinct (map fst (sort_key snd (generate_node_changes A B)))"
    using assms mset_eq_imp_distinct_iff by blast
  thus ?thesis by (simp add: rank_changes_def result_sorted_def dict_of_items_distinct)
qed

text \<open>
  C4. For an observed score mapping A (a dict: its keys are distinct) and a candidate
  score mapping B, the ranking has one entry for every key of A and for no other node,
  the entry of a node is \<^verbatim>\<open>B.get(node, 0) - A[node]\<close>, there are \<^verbatim>\<open>len(A)\<close> entries, and
  the deltas are in non-decreasing order.
\<close>

theorem rank_changes_sorted_deltas:
  "distinct (map fst A) \<Longrightarrow>
   length (rank_changes A B) = length A \<and>
   sorted (map snd (rank_changes A B)) \<and>
   mset (map fst (rank_changes A B)) = mset (map fst A) \<and>
   mset (rank_changes A B) = mset (map (\<lambda>(node, a). (node, dict_get B node 0 - a)) A)"
proof -
  assume d: "distinct (map fst A)"
  have r: "rank_changes A B = sort_key snd (generate_node_changes A B)"
    using d by (rule rank_changes_sort)
  have m: "mset (rank_changes A B) = mset (generate_node_changes A B)"
    by (simp add: r)
  have "mset (map fst (rank_changes A B)) = mset (map fst (generate_node_changes A B))"
    by (simp add: r)
  hence k: "mset (map fst (rank_changes A B)) = mset (map fst A)"
    by (simp only: keys_generate_node_changes)
  have l: "length (rank_changes A B) = length A"
    by (simp add: r generate_node_changes_def)
  have s: "sorted (map snd (rank_changes A B))"
    by (simp add: r)
  from l s k m show ?thesis
    by (simp only: generate_node_changes_def simp_thms)
qed

theorem rank_changes_sorted_deltas_witness:
  "distinct (map fst [(1 :: int, 1 / 2 :: real), (2, 1 / 4), (3, 1)]) \<and>
   rank_changes [(1, 1 / 2), (2, 1 / 4), (3, 1)] (map_of [(1, 1), (4, 7)]) =
     [(3, - 1), (2, - (1 / 4)), (1, 1 / 2)]"
  using rank_changes_sorted_deltas [of "[(1, 1 / 2), (2, 1 / 4), (3, 1)]" "map_of [(1, 1), (4, 7)]"]
  by (simp add: rank_changes_def result_sorted_def generate_node_changes_def
      dict_of_items_def dict_get_def)

text \<open>
  The notebook asks for \<^verbatim>\<open>len(result)\<close> entries, so \<^verbatim>\<open>gains\<close> holds the whole ranking.
\<close>

lemma gains_of_full: "gains_of result = map_of result"
  by (simp add: gains_of_def)

text \<open>
  C8. The "top" selection of n entries and the "bottom" selection of the other
  \<^verbatim>\<open>len(ranking) - n\<close> entries partition the ranking: put together they hold every entry of
  the ranking exactly once, and the bottom part followed by the top part is the ranking
  itself. This holds for every n, so for \<open>0 \<le> n \<le> len(ranking)\<close>.
\<close>

theorem select_top_bottom_partition:
  "mset (generate_result_lists ranking n Top @
         generate_result_lists ranking (length ranking - n) Bottom) = mset ranking \<and>
   generate_result_lists ranking (length ranking - n) Bottom @
     generate_result_lists ranking n Top = ranking"
proof -
  have "mset (drop (length ranking - n) ranking @ take (length ranking - n) ranking) =
        mset ranking"
    by (metis append_take_drop_id mset_append union_commute)
  thus ?thesis by simp
qed


section \<open>Slices, retained indices and the labelling loop\<close>

lemma label_known:
  "known ents rels (h, t, r) \<Longrightarrow>
   label ents rels h t r = Inr (the (ents h) @ '' '' @ the (rels r) @ '' '' @ the (ents t))"
  by (auto simp: known_def label_def)

lemma label_unknown: "\<not> known ents rels (h, t, r) \<Longrightarrow> label ents rels h t r = Inl LookupError"
  by (auto simp: known_def label_def split: option.splits)

lemma fst_record_for: "fst (record_for ents rels scores ids p) = ids ! fst p"
  by (simp add: record_for_def split: prod.splits)

lemma results_loop_known_prefix:
  assumes "\<forall>p\<in>set ps1. known ents rels (snd p)"
    and "distinct (map (\<lambda>p. ids ! fst p) ps1)"
    and "\<forall>p\<in>set ps1. ids ! fst p \<notin> fst ` set res"
  shows "results_loop ents rels scores ids (ps1 @ ps2) res =
         results_loop ents rels scores ids ps2 (res @ map (record_for ents rels scores ids) ps1)"
  using assms
proof (induction ps1 arbitrary: res)
  case Nil
  then show ?case by simp
next
  case (Cons p ps1)
  obtain i h t r where p: "p = (i, (h, t, r))" by (cases p) auto
  let ?rec = "record_for ents rels scores ids p"
  from Cons.prems(1) p have k: "known ents rels (h, t, r)" by simp
  from Cons.prems(3) p have fresh: "ids ! i \<notin> fst ` set res" by simp
  have step: "results_loop ents rels scores ids ((p # ps1) @ ps2) res =
              results_loop ents rels scores ids (ps1 @ ps2) (res @ [?rec])"
    using fresh by (simp add: p label_known [OF k] dict_set_fresh record_for_def Let_def)
  have "\<forall>q\<in>set ps1. ids ! fst q \<notin> fst ` set (res @ [?rec])"
  proof
    fix q
    assume q: "q \<in> set ps1"
    with Cons.prems(3) have old: "ids ! fst q \<notin> fst ` set res" by simp
    from Cons.prems(2) p have "ids ! i \<notin> (\<lambda>p. ids ! fst p) ` set ps1" by simp
    with q have "ids ! fst q \<noteq> ids ! i" by force
    with old show "ids ! fst q \<notin> fst ` set (res @ [?rec])"
      by (simp add: fst_record_for p)
  qed
  with Cons.IH [of "res @ [?rec]"] Cons.prems(1,2)
  have "results_loop ents rels scores ids (ps1 @ ps2) (res @ [?rec]) =
        results_loop ents rels scores ids ps2
          ((res @ [?rec]) @ map (record_for ents rels scores ids) ps1)"
    by simp
  with step show ?case by simp
qed

lemma results_loop_stops:
  "\<not> known ents rels (snd p) \<Longrightarrow>
   results_loop ents rels scores ids (p # rest) res = Inl (LookupError, res)"
  by (cases p) (auto simp: label_unknown)

lemma py_slice_to_map: "py_slice_to k (map f xs) = map f (py_slice_to k xs)"
  by (simp add: py_slice_to_def take_map)

lemma take_length_take: "take (length (take a xs)) xs = take a xs"
  by (cases "a \<le> length xs") (simp_all add: min_def)

lemma py_slice_to_take: "py_slice_to k xs = take (length (py_slice_to k xs)) xs"
  by (cases "0 \<le> k") (simp_all add: py_slice_to_def take_length_take del: length_take)

lemma length_py_slice_to: "length (py_slice_to k xs) \<le> length xs"
  by (simp add: py_slice_to_def)

lemma py_slice_to_zero: "py_slice_to 0 xs = []"
  by (simp add: py_slice_to_def)

lemma py_slice_to_all: "int (length xs) \<le> k \<Longrightarrow> py_slice_to k xs = xs"
  by (simp add: py_slice_to_def)

lemma py_slice_to_negative: "k < 0 \<Longrightarrow> py_slice_to k xs = take (length xs - nat (- k)) xs"
  by (simp add: py_slice_to_def)

lemma map_nth_upt_take: "m \<le> length xs \<Longrightarrow> map (\<lambda>i. xs ! i) [0..<m] = take m xs"
  by (rule nth_equalityI) simp_all

lemma top_triples_map:
  "top_triples triples ids k = map (\<lambda>i. triples ! i) (py_slice_to k ids)"
  by (simp add: top_triples_def py_slice_to_map)

lemma keys_enumerate: "map (\<lambda>p. ids ! fst p) (enumerate 0 tp) = triple_ids ids tp"
  by (simp add: triple_ids_def case_prod_beta)

lemma triple_ids_take: "length tp \<le> length ids \<Longrightarrow> triple_ids ids tp = take (length tp) ids"
  by (rule nth_equalityI) (simp_all add: triple_ids_def nth_enumerate_eq)

lemma triple_ids_top: "triple_ids ids (top_triples triples ids k) = py_slice_to k ids"
proof -
  have len: "length (top_triples triples ids k) = length (py_slice_to k ids)"
    by (simp add: top_triples_map)
  with length_py_slice_to [of k ids]
  have "triple_ids ids (top_triples triples ids k) = take (length (py_slice_to k ids)) ids"
    by (simp add: triple_ids_take)
  thus ?thesis using py_slice_to_take [of k ids] by simp
qed

lemma is_argsort_distinct: "is_argsort a ids \<Longrightarrow> distinct ids"
  unfolding is_argsort_def using mset_eq_imp_distinct_iff distinct_upt by blast

lemma is_argsort_set: "is_argsort a ids \<Longrightarrow> set ids = {0..<length a}"
  unfolding is_argsort_def using mset_eq_setD by fastforce

lemma is_argsort_length: "is_argsort a ids \<Longrightarrow> length ids = length a"
  unfolding is_argsort_def using mset_eq_length by fastforce

lemma insertion_argsort_is_argsort: "is_argsort a (insertion_argsort a)"
  by (simp add: is_argsort_def insertion_argsort_def)

lemma results_all_known:
  assumes k: "\<forall>t\<in>set tp. known ents rels t"
    and d: "distinct (triple_ids ids tp)"
  shows "results ents rels scores ids tp =
         Inr (map (record_for ents rels scores ids) (enumerate 0 tp))"
proof -
  have "\<forall>p\<in>set (enumerate 0 tp). known ents rels (snd p)"
    using k by (auto simp: enumerate_eq_zip dest: set_zip_rightD)
  moreover have "distinct (map (\<lambda>p. ids ! fst p) (enumerate 0 tp))"
    using d by (simp only: keys_enumerate)
  ultimately show ?thesis
    using results_loop_known_prefix [of "enumerate 0 tp" ents rels ids "[]" scores "[]"]
    by (simp add: results_def)
qed

lemma record_keys:
  "map fst (map (record_for ents rels scores ids) (enumerate 0 tp)) = triple_ids ids tp"
  by (simp add: comp_def fst_record_for keys_enumerate)

lemma snd_record_for_score:
  "r_score (snd (record_for ents rels scores ids p)) = scores ! (ids ! fst p)"
  by (simp add: record_for_def split: prod.splits)

lemma record_scores:
  "map (r_score \<circ> snd) (map (record_for ents rels scores ids) (enumerate 0 tp)) =
   map (\<lambda>i. scores ! i) (triple_ids ids tp)"
proof -
  have "map (r_score \<circ> snd) (map (record_for ents rels scores ids) (enumerate 0 tp)) =
        map (\<lambda>i. scores ! i) (map (\<lambda>p. ids ! fst p) (enumerate 0 tp))"
    by (simp add: comp_def snd_record_for_score)
  thus ?thesis by (simp only: keys_enumerate)
qed

lemma idxs_distinct: "is_argsort scores (argsort scores) \<Longrightarrow> distinct (idxs argsort scores)"
  by (simp add: idxs_def is_argsort_distinct)

lemma idxs_set:
  "is_argsort scores (argsort scores) \<Longrightarrow> set (idxs argsort scores) = {0..<length scores}"
  by (simp add: idxs_def is_argsort_set)

lemma idxs_length:
  "is_argsort scores (argsort scores) \<Longrightarrow> length (idxs argsort scores) = length scores"
  by (simp add: idxs_def is_argsort_length)

lemma idxs_descending:
  "is_argsort scores (argsort scores) \<Longrightarrow>
   sorted_wrt (\<ge>) (map (\<lambda>i. scores ! i) (idxs argsort scores))"
proof -
  assume "is_argsort scores (argsort scores)"
  hence "sorted (map (\<lambda>i. scores ! i) (argsort scores))" by (simp add: is_argsort_def)
  hence "sorted_wrt (\<ge>) (rev (map (\<lambda>i. scores ! i) (argsort scores)))"
    by (simp add: sorted_wrt_rev)
  thus ?thesis by (simp add: idxs_def rev_map)
qed

lemma slice_distinct: "distinct xs \<Longrightarrow> distinct (py_slice_to k xs)"
  by (subst py_slice_to_take) simp

lemma slice_subset: "set (py_slice_to k xs) \<subseteq> set xs"
  by (subst py_slice_to_take) (rule set_take_subset)

lemma slice_descending:
  "sorted_wrt (\<ge>) (map f xs) \<Longrightarrow> sorted_wrt (\<ge>) (map f (py_slice_to k xs))"
proof -
  assume "sorted_wrt (\<ge>) (map f xs)"
  hence "sorted_wrt (\<ge>) (take (length (py_slice_to k xs)) (map f xs))"
    by (rule sorted_wrt_take)
  moreover have "map f (py_slice_to k xs) = take (length (py_slice_to k xs)) (map f xs)"
    by (subst py_slice_to_take) (simp only: take_map)
  ultimately show ?thesis by (simp only:)
qed

lemma top_triples_subset:
  assumes "is_argsort scores (argsort scores)" "length scores = length triples"
  shows "set (top_triples triples (idxs argsort scores) k) \<subseteq> set triples"
proof
  fix t
  assume "t \<in> set (top_triples triples (idxs argsort scores) k)"
  hence "t \<in> (\<lambda>i. triples ! i) ` set (py_slice_to k (idxs argsort scores))"
    by (simp only: top_triples_map set_map)
  then obtain i where i: "i \<in> set (py_slice_to k (idxs argsort scores))" and t: "t = triples ! i"
    by (rule imageE)
  have "set (py_slice_to k (idxs argsort scores)) \<subseteq> set (idxs argsort scores)"
    by (rule slice_subset)
  with i have "i \<in> set (idxs argsort scores)" by (rule rev_subsetD)
  moreover have "set (idxs argsort scores) = {0..<length scores}"
    using assms(1) by (rule idxs_set)
  ultimately have "i < length triples" using assms(2) by simp
  with t show "t \<in> set triples" by simp
qed

lemma top_k_all_known:
  assumes a: "is_argsort scores (argsort scores)"
    and k: "\<forall>t\<in>set (top_triples triples (idxs argsort scores) k). known ents rels t"
  shows "top_k argsort triples scores k ents rels =
         Inr (map (record_for ents rels scores (idxs argsort scores))
                (enumerate 0 (top_triples triples (idxs argsort scores) k)))"
proof -
  have "distinct (triple_ids (idxs argsort scores) (top_triples triples (idxs argsort scores) k))"
    using a by (simp add: triple_ids_top slice_distinct idxs_distinct)
  with k show ?thesis by (simp add: top_k_def results_all_known)
qed

lemma top_triples_all:
  assumes a: "is_argsort scores (argsort scores)" and l: "length scores = length triples"
    and k: "int (length triples) \<le> k"
  shows "mset (top_triples triples (idxs argsort scores) k) = mset triples"
proof -
  from a l k have "py_slice_to k (idxs argsort scores) = idxs argsort scores"
    by (simp add: py_slice_to_all idxs_length)
  hence "mset (top_triples triples (idxs argsort scores) k) =
         image_mset (\<lambda>i. triples ! i) (mset (idxs argsort scores))"
    by (simp add: top_triples_map)
  also have "mset (idxs argsort scores) = mset [0..<length triples]"
    using a l by (simp add: idxs_def is_argsort_def)
  also have "image_mset (\<lambda>i. triples ! i) (mset [0..<length triples]) =
             mset (map (\<lambda>i. triples ! i) [0..<length triples])"
    by simp
  also have "\<dots> = mset triples" by (simp only: map_nth)
  finally show ?thesis .
qed

section \<open>Top-K selection and labelling: the claims\<close>

text \<open>
  C2, as stated, fails: two triples with equal scores can come out with the larger
  original index first. Rows (1, 2, 0) and (2, 1, 0) both score 1 with gains 1/2 for each
  node; the ascending argsort of two equal scores keeps them in place, the reversal turns
  them around, and the selection returns index 1 before index 0.
\<close>

theorem top_k_tie_order_counterexample:
  "trip_scores [(1, 2, 0), (2, 1, 0)] (map_of [(1, 1 / 2), (2, 1 / 2)]) ! 0 =
   trip_scores [(1, 2, 0), (2, 1, 0)] (map_of [(1, 1 / 2), (2, 1 / 2)]) ! 1 \<and>
   triple_ids
     (idxs insertion_argsort
        (trip_scores [(1, 2, 0), (2, 1, 0)] (map_of [(1, 1 / 2), (2, 1 / 2)])))
     (top_triples [(1, 2, 0), (2, 1, 0)]
        (idxs insertion_argsort
           (trip_scores [(1, 2, 0), (2, 1, 0)] (map_of [(1, 1 / 2), (2, 1 / 2)])))
        100) = [1, 0]"
  by (simp add: trip_scores_map endpoint_sum_def dict_get_def triple_ids_top py_slice_to_def
      idxs_def insertion_argsort_def)

text \<open>
  C2, amended. For every triple sequence, score sequence (one score per triple) and k, the
  retained triple indices are the slice \<^verbatim>\<open>[:k]\<close> of argsort's result reversed, the
  retained rows are the triples at these indices, the scores along them never increase,
  and no index occurs twice. Nothing is promised about the order of triples with equal
  scores.
\<close>

theorem top_k_descending_order:
  "is_argsort scores (argsort scores) \<Longrightarrow> length scores = length triples \<Longrightarrow>
   triple_ids (idxs argsort scores) (top_triples triples (idxs argsort scores) k) =
     py_slice_to k (rev (argsort scores)) \<and>
   top_triples triples (idxs argsort scores) k =
     map (\<lambda>i. triples ! i) (py_slice_to k (rev (argsort scores))) \<and>
   sorted_wrt (\<ge>) (map (\<lambda>i. scores ! i) (py_slice_to k (rev (argsort scores)))) \<and>
   distinct (py_slice_to k (rev (argsort scores)))"
proof -
  assume a: "is_argsort scores (argsort scores)"
  have r: "rev (argsort scores) = idxs argsort scores" by (simp add: idxs_def)
  have 1: "triple_ids (idxs argsort scores) (top_triples triples (idxs argsort scores) k) =
     py_slice_to k (idxs argsort scores)"
    by (rule triple_ids_top)
  have 2: "top_triples triples (idxs argsort scores) k =
     map (\<lambda>i. triples ! i) (py_slice_to k (idxs argsort scores))"
    by (rule top_triples_map)
  have 3: "sorted_wrt (\<ge>) (map (\<lambda>i. scores ! i) (py_slice_to k (idxs argsort scores)))"
    using idxs_descending [where argsort = argsort, OF a] by (rule slice_descending)
  have 4: "distinct (py_slice_to k (idxs argsort scores))"
    using idxs_distinct [where argsort = argsort, OF a] by (rule slice_distinct)
  from 1 2 3 4 show ?thesis unfolding r by (intro conjI)
qed

theorem top_k_descending_order_witness:
  "is_argsort [1 / 2, 1, 1 / 4] (insertion_argsort [1 / 2, 1, 1 / 4]) \<and>
   length [1 / 2, 1, 1 / 4 :: real] = length [(1, 2, 0), (2, 3, 0), (3, 1, 0 :: int)] \<and>
   triple_ids (idxs insertion_argsort [1 / 2, 1, 1 / 4])
     (top_triples [(1, 2, 0), (2, 3, 0), (3, 1, 0)]
        (idxs insertion_argsort [1 / 2, 1, 1 / 4]) 2) = [1, 0] \<and>
   top_triples [(1, 2, 0), (2, 3, 0), (3, 1, 0)] (idxs insertion_argsort [1 / 2, 1, 1 / 4]) 2 =
     [(2, 3, 0), (1, 2, 0)] \<and>
   map (\<lambda>i. [1 / 2, 1, 1 / 4 :: real] ! i) [1, 0] = [1, 1 / 2]"
  using top_k_descending_order [of "[1 / 2, 1, 1 / 4]" insertion_argsort
      "[(1, 2, 0), (2, 3, 0), (3, 1, 0)]" 2]
  by (simp add: is_argsort_def insertion_argsort_def idxs_def py_slice_to_def triple_ids_def
      top_triples_def)

text \<open>
  C5, as stated, fails for a negative k: with two triples and k = -1 the result mapping
  holds one record, not none.
\<close>

theorem top_k_negative_counterexample:
  "top_k insertion_argsort [(1, 2, 0), (2, 3, 0)]
     (trip_scores [(1, 2, 0), (2, 3, 0)] (map_of [(1, 1)])) (- 1)
     (map_of [(1, ''a''), (2, ''b''), (3, ''c'')]) (map_of [(0, ''r'')]) =
   Inr [(0, \<lparr>r_idxs = 2, r_label = ''a r b'', r_score = 1\<rparr>)]"
  by (simp add: trip_scores_map endpoint_sum_def dict_get_def top_k_def results_def
      top_triples_def py_slice_to_def idxs_def insertion_argsort_def label_def)

lemma py_slice_to_empty: "k \<le> - int (length xs) \<Longrightarrow> py_slice_to k xs = []"
  by (simp add: py_slice_to_def)

lemma top_k_zero: "top_k argsort triples scores 0 ents rels = Inr []"
  by (simp add: top_k_def results_def top_triples_def py_slice_to_def)

lemma top_k_far_negative:
  assumes a: "is_argsort scores (argsort scores)" and l: "length scores = length triples"
    and m: "m \<le> - int (length triples)"
  shows "top_k argsort triples scores m ents rels = Inr []"
proof -
  have "length (idxs argsort scores) = length triples"
    using a l by (simp add: idxs_length)
  with m have "py_slice_to m (idxs argsort scores) = []"
    by (simp add: py_slice_to_empty)
  thus ?thesis by (simp add: top_k_def results_def top_triples_map)
qed

text \<open>
  C5, amended. Top-K selection with k = 0 returns an empty result mapping, and so does
  every k \<open>\<le> -n\<close>, n being the number of triples (one score per triple). With every id of
  every triple in its lookup table, a k of at least n returns a record for every triple
  index, each once, in order of non-increasing score, and the selected rows are all the
  triples, none twice and none left out; and a k with \<open>-n < k < 0\<close>, a slice bound counted
  from the end, returns the \<open>n + k\<close> records of the first \<open>n + k\<close> indices of that order,
  which is not an empty result.
\<close>

theorem top_k_boundaries:
  "top_k argsort triples scores 0 ents rels = Inr [] \<and>
   (is_argsort scores (argsort scores) \<longrightarrow> length scores = length triples \<longrightarrow>
      (m \<le> - int (length triples) \<longrightarrow> top_k argsort triples scores m ents rels = Inr []) \<and>
      ((\<forall>trip\<in>set triples. known ents rels trip) \<longrightarrow>
         (int (length triples) \<le> k \<longrightarrow>
            (\<exists>res. top_k argsort triples scores k ents rels = Inr res \<and>
               map fst res = idxs argsort scores \<and>
               mset (map fst res) = mset [0..<length triples] \<and>
               mset (top_triples triples (idxs argsort scores) k) = mset triples \<and>
               sorted_wrt (\<ge>) (map (r_score \<circ> snd) res) \<and>
               map (r_score \<circ> snd) res = map (\<lambda>i. scores ! i) (map fst res))) \<and>
         (- int (length triples) < j \<and> j < 0 \<longrightarrow>
            (\<exists>res. top_k argsort triples scores j ents rels = Inr res \<and>
               map fst res = take (length triples - nat (- j)) (idxs argsort scores) \<and>
               length res = length triples - nat (- j) \<and> res \<noteq> []))))"
proof -
  let ?ids = "idxs argsort scores"
  have big: "\<exists>res. top_k argsort triples scores k ents rels = Inr res \<and>
         map fst res = ?ids \<and>
         mset (map fst res) = mset [0..<length triples] \<and>
         mset (top_triples triples ?ids k) = mset triples \<and>
         sorted_wrt (\<ge>) (map (r_score \<circ> snd) res) \<and>
         map (r_score \<circ> snd) res = map (\<lambda>i. scores ! i) (map fst res)"
    if a: "is_argsort scores (argsort scores)" and l: "length scores = length triples"
      and kn: "\<forall>trip\<in>set triples. known ents rels trip"
      and k: "int (length triples) \<le> k"
  proof -
    have all: "\<forall>t\<in>set (top_triples triples ?ids k). known ents rels t"
      using kn top_triples_subset [where argsort = argsort, OF a l] by blast
    let ?res = "map (record_for ents rels scores ?ids) (enumerate 0 (top_triples triples ?ids k))"
    have ok: "top_k argsort triples scores k ents rels = Inr ?res"
      using top_k_all_known [where argsort = argsort, OF a all] .
    have s: "py_slice_to k ?ids = ?ids"
      using a l k by (simp add: py_slice_to_all idxs_length)
    have keys: "map fst ?res = ?ids"
      by (simp only: record_keys triple_ids_top s)
    have sc: "map (r_score \<circ> snd) ?res = map (\<lambda>i. scores ! i) ?ids"
      by (simp only: record_scores triple_ids_top s)
    have perm: "mset ?ids = mset [0..<length triples]"
      using a l by (simp add: idxs_def is_argsort_def)
    from ok keys sc perm idxs_descending [where argsort = argsort, OF a]
      top_triples_all [where argsort = argsort, OF a l k]
    show ?thesis by (intro exI [of _ ?res]) (simp only: simp_thms)
  qed
  have neg: "\<exists>res. top_k argsort triples scores j ents rels = Inr res \<and>
         map fst res = take (length triples - nat (- j)) ?ids \<and>
         length res = length triples - nat (- j) \<and> res \<noteq> []"
    if a: "is_argsort scores (argsort scores)" and l: "length scores = length triples"
      and kn: "\<forall>trip\<in>set triples. known ents rels trip"
      and j: "- int (length triples) < j" "j < 0"
  proof -
    have all: "\<forall>t\<in>set (top_triples triples ?ids j). known ents rels t"
      using kn top_triples_subset [where argsort = argsort, OF a l] by blast
    let ?res = "map (record_for ents rels scores ?ids) (enumerate 0 (top_triples triples ?ids j))"
    have ok: "top_k argsort triples scores j ents rels = Inr ?res"
      using top_k_all_known [where argsort = argsort, OF a all] .
    have len: "length ?ids = length triples" using a l by (simp add: idxs_length)
    have "map fst ?res = py_slice_to j ?ids"
      by (simp only: record_keys triple_ids_top)
    with j(2) len have keys: "map fst ?res = take (length triples - nat (- j)) ?ids"
      by (simp add: py_slice_to_negative)
    have "length ?res = length (map fst ?res)" by simp
    also have "\<dots> = length triples - nat (- j)" using len by (simp only: keys) simp
    finally have n: "length ?res = length triples - nat (- j)" .
    from j have "0 < length triples - nat (- j)" by linarith
    with n have ne: "?res \<noteq> []" by (metis length_greater_0_conv)
    from ok keys n ne show ?thesis by (intro exI [of _ ?res]) (simp only: simp_thms)
  qed
  from top_k_zero [of argsort triples scores ents rels]
    top_k_far_negative [where argsort = argsort and m = m and ents = ents and rels = rels]
    big neg
  show ?thesis by blast
qed

theorem top_k_boundaries_witness:
  "is_argsort [1, 0] (insertion_argsort [1, 0]) \<and>
   length [1, 0 :: real] = length [(1, 2, 0), (2, 3, 0 :: int)] \<and>
   known (map_of [(1, ''a''), (2, ''b''), (3, ''c'')]) (map_of [(0, ''r'')]) (1, 2, 0) \<and>
   known (map_of [(1, ''a''), (2, ''b''), (3, ''c'')]) (map_of [(0, ''r'')]) (2, 3, 0) \<and>
   (- 2 :: int) \<le> - int (length [(1, 2, 0), (2, 3, 0 :: int)]) \<and>
   int (length [(1, 2, 0), (2, 3, 0 :: int)]) \<le> 2 \<and>
   - int (length [(1, 2, 0), (2, 3, 0 :: int)]) < - 1 \<and> (- 1 :: int) < 0 \<and>
   top_k insertion_argsort [(1, 2, 0), (2, 3, 0)] [1, 0] 0
     (map_of [(1, ''a''), (2, ''b''), (3, ''c'')]) (map_of [(0, ''r'')]) = Inr [] \<and>
   top_k insertion_argsort [(1, 2, 0), (2, 3, 0)] [1, 0] (- 2)
     (map_of [(1, ''a''), (2, ''b''), (3, ''c'')]) (map_of [(0, ''r'')]) = Inr [] \<and>
   top_k insertion_argsort [(1, 2, 0), (2, 3, 0)] [1, 0] 2
     (map_of [(1, ''a''), (2, ''b''), (3, ''c'')]) (map_of [(0, ''r'')]) =
     Inr [(0, \<lparr>r_idxs = 2, r_label = ''a r b'', r_score = 1\<rparr>),
          (1, \<lparr>r_idxs = 3, r_label = ''b r c'', r_score = 0\<rparr>)] \<and>
   top_k insertion_argsort [(1, 2, 0), (2, 3, 0)] [1, 0] (- 1)
     (map_of [(1, ''a''), (2, ''b''), (3, ''c'')]) (map_of [(0, ''r'')]) =
     Inr [(0, \<lparr>r_idxs = 2, r_label = ''a r b'', r_score = 1\<rparr>)]"
  using top_k_boundaries [of insertion_argsort "[(1, 2, 0), (2, 3, 0)]" "[1, 0]"
      "map_of [(1, ''a''), (2, ''b''), (3, ''c'')]" "map_of [(0, ''r'')]" "- 2" 2 "- 1"]
  by (simp add: is_argsort_def known_def top_k_def results_def top_triples_def
      py_slice_to_def idxs_def insertion_argsort_def label_def)

lemma top_k_stops_at_unknown:
  assumes a: "is_argsort scores (argsort scores)" and l: "length scores = length triples"
    and i: "i < length (top_triples triples (idxs argsort scores) k)"
    and u: "\<not> known ents rels (top_triples triples (idxs argsort scores) k ! i)"
  shows "\<exists>partial. top_k argsort triples scores k ents rels = Inl (LookupError, partial) \<and>
           idxs argsort scores ! i \<notin> fst ` set partial"
proof -
  let ?ids = "idxs argsort scores"
  let ?tp = "top_triples triples ?ids k"
  let ?ps = "enumerate 0 ?tp"
  let ?P = "\<lambda>p. known ents rels (snd p)"
  define ps1 where "ps1 = takeWhile ?P ?ps"
  define rest where "rest = dropWhile ?P ?ps"
  let ?j = "length ps1"
  have psi: "?ps ! i = (i, ?tp ! i)" using i by (simp add: nth_enumerate_eq)
  have "?ps ! i \<in> set ?ps" using i by simp
  with u psi have "\<exists>p\<in>set ?ps. \<not> ?P p" by (metis snd_conv)
  hence ne: "rest \<noteq> []" by (simp add: rest_def)
  then obtain p rest' where rest: "rest = p # rest'" by (cases rest) auto
  have np: "\<not> ?P p" using hd_dropWhile [of ?P ?ps] ne rest by (simp add: rest_def)
  have split: "?ps = ps1 @ p # rest'"
    using takeWhile_dropWhile_id [of ?P ?ps] rest unfolding ps1_def rest_def by (simp only:)
  have kn: "\<forall>q\<in>set ps1. ?P q" by (auto simp: ps1_def dest: set_takeWhileD)
  have ps1_take: "ps1 = take ?j ?ps" unfolding ps1_def by (rule takeWhile_eq_take)
  have jle: "?j \<le> length ?ps" unfolding ps1_def by (rule length_takeWhile_le)
  have keys_all: "map (\<lambda>p. ?ids ! fst p) ?ps = py_slice_to k ?ids"
    by (simp only: keys_enumerate triple_ids_top)
  have "map (\<lambda>p. ?ids ! fst p) ps1 = take ?j (map (\<lambda>p. ?ids ! fst p) ?ps)"
    by (subst ps1_take) (simp only: take_map)
  also have "\<dots> = take ?j (py_slice_to k ?ids)" by (simp only: keys_all)
  finally have keys1: "map (\<lambda>p. ?ids ! fst p) ps1 = take ?j (py_slice_to k ?ids)" .
  have dsl: "distinct (py_slice_to k ?ids)" using a by (simp add: slice_distinct idxs_distinct)
  have d1: "distinct (map (\<lambda>p. ?ids ! fst p) ps1)" using dsl by (simp add: keys1)
  let ?partial = "map (record_for ents rels scores ?ids) ps1"
  have run: "top_k argsort triples scores k ents rels = Inl (LookupError, ?partial)"
    using results_loop_known_prefix [of ps1 ents rels ?ids "[]" scores "p # rest'"] kn d1
      results_loop_stops [OF np]
    by (simp add: top_k_def results_def split)
  have ji: "?j \<le> i"
  proof (rule ccontr)
    assume "\<not> ?j \<le> i"
    hence lt: "i < ?j" by simp
    hence "ps1 ! i = ?ps ! i" by (subst ps1_take) simp
    moreover from lt have "ps1 ! i \<in> set ps1" by simp
    ultimately have "?P (?ps ! i)" using kn by metis
    with u psi show False by simp
  qed
  have ilen: "i < length (py_slice_to k ?ids)" using i by (simp add: top_triples_map)
  have at: "py_slice_to k ?ids ! i = ?ids ! i"
    using ilen by (subst py_slice_to_take) simp
  have "py_slice_to k ?ids ! i \<notin> set (take ?j (py_slice_to k ?ids))"
  proof
    assume "py_slice_to k ?ids ! i \<in> set (take ?j (py_slice_to k ?ids))"
    then obtain n where n: "n < ?j" "n < length (py_slice_to k ?ids)"
      and eq: "py_slice_to k ?ids ! n = py_slice_to k ?ids ! i"
      by (auto simp: in_set_conv_nth)
    with dsl ilen have "n = i" by (simp add: nth_eq_iff_index_eq)
    with n ji show False by simp
  qed
  hence "?ids ! i \<notin> set (map (\<lambda>p. ?ids ! fst p) ps1)" by (simp only: keys1 at not_False_eq_True)
  hence "?ids ! i \<notin> fst ` set ?partial"
    by (simp add: image_image fst_record_for)
  with run show ?thesis by blast
qed

text \<open>
  C6. When a retained triple (position \<open>i\<close> of \<^verbatim>\<open>top\<close>) has a head, tail or relation id
  that its lookup table does not hold, the labelling raises \<^verbatim>\<open>LookupError\<close>, and the
  records built before the error hold none for that triple's index.
\<close>

theorem labeler_lookup_error:
  "is_argsort scores (argsort scores) \<Longrightarrow> length scores = length triples \<Longrightarrow>
   i < length (top_triples triples (idxs argsort scores) k) \<Longrightarrow>
   \<not> known ents rels (top_triples triples (idxs argsort scores) k ! i) \<Longrightarrow>
   \<exists>partial. top_k argsort triples scores k ents rels = Inl (LookupError, partial) \<and>
     idxs argsort scores ! i \<notin> fst ` set partial"
  by (rule top_k_stops_at_unknown)

theorem labeler_lookup_error_witness:
  "is_argsort [1, 0] (insertion_argsort [1, 0]) \<and>
   length [1, 0 :: real] = length [(1, 2, 0), (2, 3, 0 :: int)] \<and>
   1 < length (top_triples [(1, 2, 0), (2, 3, 0)] (idxs insertion_argsort [1, 0]) 5) \<and>
   \<not> known (map_of [(1, ''a''), (2, ''b'')]) (map_of [(0, ''r'')])
       (top_triples [(1, 2, 0), (2, 3, 0)] (idxs insertion_argsort [1, 0]) 5 ! 1) \<and>
   top_k insertion_argsort [(1, 2, 0), (2, 3, 0)] [1, 0] 5
     (map_of [(1, ''a''), (2, ''b'')]) (map_of [(0, ''r'')]) =
     Inl (LookupError, [(0, \<lparr>r_idxs = 2, r_label = ''a r b'', r_score = 1\<rparr>)]) \<and>
   idxs insertion_argsort [1, 0] ! 1 = 1"
  using labeler_lookup_error [of "[1, 0]" insertion_argsort "[(1, 2, 0), (2, 3, 0)]" 1 5
      "map_of [(1, ''a''), (2, ''b'')]" "map_of [(0, ''r'')]"]
  by (simp add: is_argsort_def known_def top_k_def results_def top_triples_def
      py_slice_to_def idxs_def insertion_argsort_def label_def)

text \<open>
  C10 fails on the code. For the single observed triple (1, 2, 0) the record stored under
  index 0 has the score of that index, but its \<^verbatim>\<open>'idxs'\<close> entry is 2, the tail id alone,
  not the triple (1, 2, 0): \<^verbatim>\<open>h, t, r = t\<close> has rebound \<^verbatim>\<open>t\<close> before the record is built.
\<close>

theorem result_record_stores_tail_only:
  "top_k insertion_argsort [(1, 2, 0)] (trip_scores [(1, 2, 0)] (map_of [(1, 1 / 2)])) 100
     (map_of [(1, ''a''), (2, ''b'')]) (map_of [(0, ''r'')]) =
   Inr [(0, \<lparr>r_idxs = 2, r_label = ''a r b'', r_score = 1 / 2\<rparr>)] \<and>
   trip_scores [(1, 2, 0)] (map_of [(1, 1 / 2)]) ! 0 = 1 / 2"
  by (simp add: trip_scores_map endpoint_sum_def dict_get_def top_k_def results_def
      top_triples_def py_slice_to_def idxs_def insertion_argsort_def label_def)

lemma snd_record_for_tail:
  "r_idxs (snd (record_for ents rels scores ids p)) = fst (snd (snd p))"
  by (simp add: record_for_def split: prod.splits)

lemma record_tails:
  "map (r_idxs \<circ> snd) (map (record_for ents rels scores ids) (enumerate 0 tp)) =
   map (\<lambda>t. fst (snd t)) tp"
  by (rule nth_equalityI) (simp_all add: snd_record_for_tail nth_enumerate_eq)

text \<open>
  What every record of a run without error holds: the keys are the retained triple
  indices in output order, the stored score is the score of the record's own index, and
  the \<^verbatim>\<open>'idxs'\<close> entry is the tail id of the triple at that index.
\<close>

theorem emitted_records:
  assumes a: "is_argsort scores (argsort scores)" and l: "length scores = length triples"
    and r: "top_k argsort triples scores k ents rels = Inr res"
  shows "map fst res = py_slice_to k (idxs argsort scores) \<and>
         map (r_score \<circ> snd) res = map (\<lambda>i. scores ! i) (map fst res) \<and>
         map (r_idxs \<circ> snd) res = map (\<lambda>i. fst (snd (triples ! i))) (map fst res)"
proof -
  let ?ids = "idxs argsort scores"
  let ?tp = "top_triples triples ?ids k"
  have all: "\<forall>t\<in>set ?tp. known ents rels t"
  proof (rule ccontr)
    assume "\<not> (\<forall>t\<in>set ?tp. known ents rels t)"
    then obtain i where "i < length ?tp" "\<not> known ents rels (?tp ! i)"
      by (auto simp: in_set_conv_nth)
    from top_k_stops_at_unknown [where argsort = argsort, OF a l this] r show False by auto
  qed
  let ?res = "map (record_for ents rels scores ?ids) (enumerate 0 ?tp)"
  from top_k_all_known [where argsort = argsort, OF a all] r have res: "res = ?res" by simp
  have keys: "map fst ?res = py_slice_to k ?ids"
    by (simp only: record_keys triple_ids_top)
  have sc: "map (r_score \<circ> snd) ?res = map (\<lambda>i. scores ! i) (py_slice_to k ?ids)"
    by (simp only: record_scores triple_ids_top)
  have "map (r_idxs \<circ> snd) ?res = map (\<lambda>t. fst (snd t)) ?tp"
    by (rule record_tails)
  also have "\<dots> = map (\<lambda>i. fst (snd (triples ! i))) (py_slice_to k ?ids)"
    by (simp add: top_triples_map comp_def)
  finally have tl: "map (r_idxs \<circ> snd) ?res =
      map (\<lambda>i. fst (snd (triples ! i))) (py_slice_to k ?ids)" .
  from keys sc tl show ?thesis unfolding res by (simp only: simp_thms)
qed

theorem emitted_records_witness:
  "is_argsort [1, 0] (insertion_argsort [1, 0]) \<and>
   length [1, 0 :: real] = length [(1, 2, 0), (2, 3, 0 :: int)] \<and>
   top_k insertion_argsort [(1, 2, 0), (2, 3, 0)] [1, 0] 2
     (map_of [(1, ''a''), (2, ''b''), (3, ''c'')]) (map_of [(0, ''r'')]) =
     Inr [(0, \<lparr>r_idxs = 2, r_label = ''a r b'', r_score = 1\<rparr>),
          (1, \<lparr>r_idxs = 3, r_label = ''b r c'', r_score = 0\<rparr>)] \<and>
   map (\<lambda>i. fst (snd ([(1, 2, 0), (2, 3, 0 :: int)] ! i))) [0, 1] = [2 :: int, 3]"
  using emitted_records [of "[1, 0]" insertion_argsort "[(1, 2, 0), (2, 3, 0)]" 2
      "map_of [(1, ''a''), (2, ''b''), (3, ''c'')]" "map_of [(0, ''r'')]"
      "[(0, \<lparr>r_idxs = 2, r_label = ''a r b'', r_score = 1\<rparr>),
        (1, \<lparr>r_idxs = 3, r_label = ''b r c'', r_score = 0\<rparr>)]"]
  by (simp add: is_argsort_def top_k_def results_def top_triples_def
      py_slice_to_def idxs_def insertion_argsort_def label_def)

end
